theory Spec2Isabelle
  imports Main
begin

section \<open>Data model (types.ts)\<close>

text \<open>
  \<^verbatim>\<open>Agent\<close> and \<^verbatim>\<open>AgentName\<close> are unions of string literal types; the types are erased
  when the program runs, and \<^verbatim>\<open>processUserAgent\<close> stores whatever string it split off the
  specifier. Both are strings here. An optional field is an \<open>option\<close>, \<open>None\<close> being
  \<^verbatim>\<open>undefined\<close>; a function that returns \<^verbatim>\<open>DetectResult | null\<close> returns an \<open>option\<close>,
  \<open>None\<close> being \<^verbatim>\<open>null\<close>. A string is the list of its code units, each an 8-bit
  character: the model covers the strings whose code units are all below 256.
\<close>

type_synonym Agent = string
type_synonym AgentName = string

record DetectResult =
  name :: AgentName
  agent :: Agent
  version :: "string option"

datatype DetectStrategy = lockfile | packageManager_field | devEngines_field | install_metadata

text \<open>
  A directory or file is an absolute, normalised path, as \<^verbatim>\<open>path.resolve\<close> returns it: the
  list of its segments below the root, \<open>[]\<close> being the root itself (\<^verbatim>\<open>path.parse(p).root\<close>).
  \<^verbatim>\<open>path.dirname\<close> drops the last segment and \<^verbatim>\<open>path.join(directory, file)\<close> appends one.
\<close>

type_synonym path = "string list"

definition root :: path where
  "root = []"

definition dirname :: "path \<Rightarrow> path" where
  "dirname p = butlast p"

definition path_join :: "path \<Rightarrow> string \<Rightarrow> path" where
  "path_join directory file = directory @ [file]"

datatype StopDir = StopDirPath path | StopDirPredicate "path \<Rightarrow> bool"

text \<open>
  \<^verbatim>\<open>DetectOptions\<close> has the four properties that \<^verbatim>\<open>types.ts\<close> declares and documents,
  \<^verbatim>\<open>cwd\<close> being the directory that \<^verbatim>\<open>path.resolve\<close> makes of it. \<^verbatim>\<open>detect\<close> also reads
  \<^verbatim>\<open>options.npm_config_user_agent\<close>, a property that \<^verbatim>\<open>DetectOptions\<close> does not declare.
  The code tests it for truthiness and for \<^verbatim>\<open>=== true\<close>, so its value is one of the
  JavaScript values below.
\<close>

datatype jsvalue = JS_undefined | JS_boolean bool | JS_string string

fun truthy :: "jsvalue \<Rightarrow> bool" where
  "truthy JS_undefined = False"
| "truthy (JS_boolean b) = b"
| "truthy (JS_string s) = (s \<noteq> [])"

record DetectOptions =
  cwd :: "path option"
  strategies :: "DetectStrategy list option"
  onUnknown :: "(string \<Rightarrow> DetectResult option) option"
  stopDir :: "StopDir option"
  npm_config_user_agent :: jsvalue

text \<open>
  \<^verbatim>\<open>constants.ts\<close> (\<^verbatim>\<open>AGENTS\<close> and \<^verbatim>\<open>LOCKS\<close>) is not among the source files, so both
  tables are parameters of every function that reads them. \<^verbatim>\<open>LOCKS\<close> is the object's list
  of entries in definition order, which is the order of \<^verbatim>\<open>Object.keys(LOCKS)\<close> for keys
  that are file names; \<^verbatim>\<open>LOCKS[lock]\<close> is the entry's second component.
\<close>

record constants =
  AGENTS :: "string list"
  LOCKS :: "(string \<times> AgentName) list"

text \<open>The process: its working directory and \<^verbatim>\<open>process.env.npm_config_user_agent\<close>.\<close>

record process =
  process_cwd :: path
  env_npm_config_user_agent :: "string option"

section \<open>The file system\<close>

text \<open>
  The value \<^verbatim>\<open>JSON.parse\<close> returns. A file is what reading and parsing it gives:
  \<open>File None\<close> is a regular file that \<^verbatim>\<open>readFileSync\<close> or \<^verbatim>\<open>JSON.parse\<close> throws on.
  A JSON object is the association list of its members, each key once.
\<close>

datatype json =
  JNull | JBool bool | JNum int | JStr string | JArr "json list" | JObj "(string \<times> json) list"

datatype node = Directory | File "json option"

type_synonym filesystem = "path \<Rightarrow> node option"

text \<open>
  Every call of the file system is recorded, so that a function returns its value together
  with the accesses it made, in order.
\<close>

datatype access = StatAsync path | StatSync path | ReadFileSync path

fun access_path :: "access \<Rightarrow> path" where
  "access_path (StatAsync p) = p"
| "access_path (StatSync p) = p"
| "access_path (ReadFileSync p) = p"

section \<open>The specifier parser (processUserAgent)\<close>

text \<open>\<^verbatim>\<open>pm.replace(/^\^/, '')\<close>: one leading caret is removed.\<close>

fun strip_caret :: "string \<Rightarrow> string" where
  "strip_caret [] = []"
| "strip_caret (c # cs) = (if c = CHR ''^'' then cs else c # cs)"

text \<open>\<^verbatim>\<open>s.split(sep)\<close> for a separator of one character: every piece, empty ones too.\<close>

function split :: "char \<Rightarrow> string \<Rightarrow> string list" where
  "split sep s =
     (case dropWhile (\<lambda>x. x \<noteq> sep) s of
        [] \<Rightarrow> [s]
      | _ # rest \<Rightarrow> takeWhile (\<lambda>x. x \<noteq> sep) s # split sep rest)"
  by pat_completeness auto
termination
proof (relation "measure (\<lambda>(sep, s). length s)")
  show "wf (measure (\<lambda>(sep, s). length s))" by simp
next
  fix sep :: char and s :: string and x :: char and rest :: string
  assume "dropWhile (\<lambda>x. x \<noteq> sep) s = x # rest"
  then have "length (x # rest) \<le> length s"
    by (metis length_dropWhile_le)
  then show "((sep, rest), (sep, s)) \<in> measure (\<lambda>(sep, s). length s)"
    by simp
qed

declare split.simps [simp del]

text \<open>
  \<^verbatim>\<open>Number.parseInt(string)\<close> with no radix, after ECMAScript: white space is skipped
  (tab, line feed, vertical tab, form feed, carriage return, space and the no-break space
  U+00A0: every white space and line terminator among the code units below 256), a
  sign is read, \<^verbatim>\<open>0x\<close> or \<^verbatim>\<open>0X\<close> switches to radix 16, and the longest prefix of digits
  is the number; with no digit the result is \<^verbatim>\<open>NaN\<close>, here \<open>None\<close>. \<^verbatim>\<open>undefined\<close> is
  first converted to the string \<^verbatim>\<open>undefined\<close>. The result is the exact integer: the
  program only compares it with 1 and with 7, and rounding to a double does not change
  the outcome of either comparison.
\<close>

definition StrWhiteSpaceChar :: "char \<Rightarrow> bool" where
  "StrWhiteSpaceChar ch = (of_char ch \<in> {9, 10, 11, 12, 13, 32, 160 :: nat})"

fun strip_sign :: "string \<Rightarrow> int \<times> string" where
  "strip_sign [] = (1, [])"
| "strip_sign (ch # cs) =
     (if ch = CHR ''-'' then (- 1, cs) else if ch = CHR ''+'' then (1, cs) else (1, ch # cs))"

fun strip_prefix :: "string \<Rightarrow> nat \<times> string" where
  "strip_prefix (c0 # c1 # cs) =
     (if c0 = CHR ''0'' \<and> (c1 = CHR ''x'' \<or> c1 = CHR ''X'') then (16, cs)
      else (10, c0 # c1 # cs))"
| "strip_prefix cs = (10, cs)"

definition digit_value :: "char \<Rightarrow> nat option" where
  "digit_value ch =
     (let n = (of_char ch :: nat) in
      if 48 \<le> n \<and> n \<le> 57 then Some (n - 48)
      else if 97 \<le> n \<and> n \<le> 122 then Some (n - 87)
      else if 65 \<le> n \<and> n \<le> 90 then Some (n - 55)
      else None)"

definition radix_digit :: "nat \<Rightarrow> char \<Rightarrow> bool" where
  "radix_digit R ch = (case digit_value ch of None \<Rightarrow> False | Some v \<Rightarrow> v < R)"

definition mathInt :: "nat \<Rightarrow> string \<Rightarrow> int" where
  "mathInt R Z =
     foldl (\<lambda>acc ch. acc * int R + int (case digit_value ch of None \<Rightarrow> 0 | Some v \<Rightarrow> v)) 0 Z"

definition parseInt :: "string option \<Rightarrow> int option" where
  "parseInt string =
     (let inputString = (case string of None \<Rightarrow> ''undefined'' | Some s \<Rightarrow> s);
          (sign, S) = strip_sign (dropWhile StrWhiteSpaceChar inputString);
          (R, S) = strip_prefix S;
          Z = takeWhile (radix_digit R) S
      in if Z = [] then None else Some (sign * mathInt R Z))"

text \<open>A comparison with \<^verbatim>\<open>NaN\<close> is false.\<close>

definition num_gt :: "int option \<Rightarrow> int \<Rightarrow> bool" where
  "num_gt x k = (case x of None \<Rightarrow> False | Some n \<Rightarrow> k < n)"

definition num_lt :: "int option \<Rightarrow> int \<Rightarrow> bool" where
  "num_lt x k = (case x of None \<Rightarrow> False | Some n \<Rightarrow> n < k)"

text \<open>\<^verbatim>\<open>onUnknown?.(pm) ?? null\<close>\<close>

definition call_onUnknown ::
  "(string \<Rightarrow> DetectResult option) option \<Rightarrow> string \<Rightarrow> DetectResult option" where
  "call_onUnknown onUnk pm = (case onUnk of None \<Rightarrow> None | Some f \<Rightarrow> f pm)"

text \<open>
  \<^verbatim>\<open>const [name, ver] = pm.replace(/^\^/, '').split('@')\<close>: \<^verbatim>\<open>name\<close> is the first piece and
  \<^verbatim>\<open>ver\<close> the second, \<^verbatim>\<open>undefined\<close> when there is none. An array with no element would
  leave \<^verbatim>\<open>name\<close> undefined, which matches no rule.
\<close>

definition second_piece :: "string list \<Rightarrow> string option" where
  "second_piece rest = (case rest of [] \<Rightarrow> None | v # _ \<Rightarrow> Some v)"

definition processUserAgent ::
  "constants \<Rightarrow> string \<Rightarrow> (string \<Rightarrow> DetectResult option) option \<Rightarrow> DetectResult option" where
  "processUserAgent c pm onUnk =
     (if pm = [] then None
      else
        (case split CHR ''@'' (strip_caret pm) of
           [] \<Rightarrow> call_onUnknown onUnk pm
         | nm # rest \<Rightarrow>
             (let ver = second_piece rest; vers = ver in
              if nm = ''yarn'' \<and> num_gt (parseInt ver) 1 then
                Some \<lparr>name = nm, agent = ''yarn@berry'', version = Some ''berry''\<rparr>
              else if nm = ''pnpm'' \<and> num_lt (parseInt ver) 7 then
                Some \<lparr>name = nm, agent = ''pnpm@6'', version = vers\<rparr>
              else if nm \<in> set (AGENTS c) then
                Some \<lparr>name = nm, agent = nm, version = vers\<rparr>
              else call_onUnknown onUnk pm)))"

text \<open>
  The name part and the version part of a specifier as the specification words them
  (section 4.1: strip a single leading caret, split on the first \<^verbatim>\<open>@\<close> into name and
  version). This is not code of the program; \<^verbatim>\<open>processUserAgent\<close> splits on every \<^verbatim>\<open>@\<close>
  and keeps the first two pieces.
\<close>

definition spec_name_version :: "string \<Rightarrow> string \<times> string option" where
  "spec_name_version pm =
     (let s = strip_caret pm in
      (takeWhile (\<lambda>x. x \<noteq> CHR ''@'') s,
       case dropWhile (\<lambda>x. x \<noteq> CHR ''@'') s of [] \<Rightarrow> None | _ # v \<Rightarrow> Some v))"

section \<open>The file system probe and the manifest reader\<close>

text \<open>
  \<^verbatim>\<open>stat\<close> throws on a missing path, and the exception is caught: only a regular file
  exists for the probe. The two forms differ in the call they make.
\<close>

definition fileExists :: "filesystem \<Rightarrow> path \<Rightarrow> bool \<times> access list" where
  "fileExists fs filePath =
     ((case fs filePath of Some (File _) \<Rightarrow> True | _ \<Rightarrow> False), [StatAsync filePath])"

definition fileExistsSync :: "filesystem \<Rightarrow> path \<Rightarrow> bool \<times> access list" where
  "fileExistsSync fs filePath =
     ((case fs filePath of Some (File _) \<Rightarrow> True | _ \<Rightarrow> False), [StatSync filePath])"

text \<open>
  \<^verbatim>\<open>handlePackageManager\<close>: everything is inside \<^verbatim>\<open>try\<close>, so a file that cannot be read or
  parsed, and a parsed value whose property cannot be read (\<^verbatim>\<open>null\<close>), give \<^verbatim>\<open>null\<close>. A value
  that is not an object has no \<^verbatim>\<open>packageManager\<close> property, and a property that is not a
  string is skipped. Both \<^verbatim>\<open>detect\<close> and \<^verbatim>\<open>detectSync\<close> read the file with
  \<^verbatim>\<open>fs.readFileSync\<close>. A callback is a total function here: one that throws is not
  modelled.
\<close>

definition handlePackageManager ::
  "constants \<Rightarrow> filesystem \<Rightarrow> path \<Rightarrow> (string \<Rightarrow> DetectResult option) option \<Rightarrow>
     DetectResult option \<times> access list" where
  "handlePackageManager c fs filepath onUnk =
     ((case fs filepath of
         Some (File (Some (JObj pkg))) \<Rightarrow>
           (case map_of pkg ''packageManager'' of
              Some (JStr pm) \<Rightarrow> processUserAgent c pm onUnk
            | _ \<Rightarrow> None)
       | _ \<Rightarrow> None),
      [ReadFileSync filepath])"

text \<open>
  \<^verbatim>\<open>!filepath\<close> is false for every path: the string of an absolute path is not empty.
\<close>

definition parsePackageJson ::
  "constants \<Rightarrow> filesystem \<Rightarrow> path \<Rightarrow> (string \<Rightarrow> DetectResult option) option \<Rightarrow>
     DetectResult option \<times> access list" where
  "parsePackageJson c fs filepath onUnk =
     (let (found, t1) = fileExists fs filepath in
      if \<not> found then (None, t1)
      else (let (result, t2) = handlePackageManager c fs filepath onUnk in (result, t1 @ t2)))"

definition parsePackageJsonSync ::
  "constants \<Rightarrow> filesystem \<Rightarrow> path \<Rightarrow> (string \<Rightarrow> DetectResult option) option \<Rightarrow>
     DetectResult option \<times> access list" where
  "parsePackageJsonSync c fs filepath onUnk =
     (let (found, t1) = fileExistsSync fs filepath in
      if \<not> found then (None, t1)
      else (let (result, t2) = handlePackageManager c fs filepath onUnk in (result, t1 @ t2)))"

section \<open>The directory walker (lookup)\<close>

text \<open>
  The generator, as the list of the directories it yields, in order. It makes no file
  system access; a consumer that stops early has used a prefix of the list. The test
  \<^verbatim>\<open>directory &&\<close> is true for every path.
\<close>

function lookup :: "path \<Rightarrow> path list" where
  "lookup directory =
     (if directory \<noteq> root then directory # lookup (dirname directory) else [])"
  by pat_completeness auto
termination
  by (relation "measure length") (auto simp: root_def dirname_def)

declare lookup.simps [simp del]

text \<open>\<^verbatim>\<open>lookup(cwd)\<close> with the default \<^verbatim>\<open>cwd = process.cwd()\<close>, after \<^verbatim>\<open>path.resolve\<close>.\<close>

definition lookup_cwd :: "process \<Rightarrow> path option \<Rightarrow> path list" where
  "lookup_cwd proc start = lookup (case start of None \<Rightarrow> process_cwd proc | Some d \<Rightarrow> d)"

section \<open>The detection resolver (detect and detectSync)\<close>

text \<open>The environment value is truthy when it is set and not the empty string.\<close>

definition env_truthy :: "string option \<Rightarrow> bool" where
  "env_truthy userAgent = (case userAgent of None \<Rightarrow> False | Some s \<Rightarrow> s \<noteq> [])"

text \<open>
  The first block of both functions, which are the same there and touch no file:
  \<open>Some r\<close> is \<^verbatim>\<open>return r\<close>, and \<open>None\<close> goes on to the loop over the directories.
\<close>

definition user_agent_block ::
  "constants \<Rightarrow> process \<Rightarrow> DetectOptions \<Rightarrow> DetectResult option option" where
  "user_agent_block c proc options =
     (if truthy (npm_config_user_agent options) then
        (let userAgent = env_npm_config_user_agent proc in
         if npm_config_user_agent options = JS_boolean True then
           Some (case userAgent of
                   None \<Rightarrow> None
                 | Some ua \<Rightarrow> if ua \<noteq> [] then processUserAgent c ua (onUnknown options) else None)
         else
           (case userAgent of
              None \<Rightarrow> None
            | Some ua \<Rightarrow>
                if ua \<noteq> [] then
                  (case processUserAgent c ua None of None \<Rightarrow> None | Some result \<Rightarrow> Some (Some result))
                else None))
      else None)"

text \<open>
  The loop over \<^verbatim>\<open>Object.keys(LOCKS)\<close> in one directory: \<open>Some r\<close> is \<^verbatim>\<open>return r\<close>, and
  \<open>None\<close> is the end of the loop with no lock file found.
\<close>

fun detect_locks ::
  "constants \<Rightarrow> filesystem \<Rightarrow> (string \<Rightarrow> DetectResult option) option \<Rightarrow> path \<Rightarrow>
     (string \<times> AgentName) list \<Rightarrow> DetectResult option \<times> access list" where
  "detect_locks c fs onUnk directory [] = (None, [])"
| "detect_locks c fs onUnk directory ((lock, nm) # locks) =
     (let (found, t1) = fileExists fs (path_join directory lock) in
      if found then
        (let (result, t2) = parsePackageJson c fs (path_join directory ''package.json'') onUnk in
         (case result of
            Some r \<Rightarrow> (Some r, t1 @ t2)
          | None \<Rightarrow> (Some \<lparr>name = nm, agent = nm, version = None\<rparr>, t1 @ t2)))
      else (let (r, t2) = detect_locks c fs onUnk directory locks in (r, t1 @ t2)))"

fun detectSync_locks ::
  "constants \<Rightarrow> filesystem \<Rightarrow> (string \<Rightarrow> DetectResult option) option \<Rightarrow> path \<Rightarrow>
     (string \<times> AgentName) list \<Rightarrow> DetectResult option \<times> access list" where
  "detectSync_locks c fs onUnk directory [] = (None, [])"
| "detectSync_locks c fs onUnk directory ((lock, nm) # locks) =
     (let (found, t1) = fileExistsSync fs (path_join directory lock) in
      if found then
        (let (result, t2) = parsePackageJsonSync c fs (path_join directory ''package.json'') onUnk in
         (case result of
            Some r \<Rightarrow> (Some r, t1 @ t2)
          | None \<Rightarrow> (Some \<lparr>name = nm, agent = nm, version = None\<rparr>, t1 @ t2)))
      else (let (r, t2) = detectSync_locks c fs onUnk directory locks in (r, t1 @ t2)))"

text \<open>
  The body of the loop over the directories: the lock files, then \<^verbatim>\<open>package.json\<close>.
  \<open>Some r\<close> is \<^verbatim>\<open>return r\<close>, and \<open>None\<close> goes on to the next directory.
\<close>

definition detect_directory ::
  "constants \<Rightarrow> filesystem \<Rightarrow> (string \<Rightarrow> DetectResult option) option \<Rightarrow> path \<Rightarrow>
     DetectResult option \<times> access list" where
  "detect_directory c fs onUnk directory =
     (let (hit, t1) = detect_locks c fs onUnk directory (LOCKS c) in
      case hit of
        Some r \<Rightarrow> (Some r, t1)
      | None \<Rightarrow>
          (let (result, t2) = parsePackageJson c fs (path_join directory ''package.json'') onUnk
           in (result, t1 @ t2)))"

definition detectSync_directory ::
  "constants \<Rightarrow> filesystem \<Rightarrow> (string \<Rightarrow> DetectResult option) option \<Rightarrow> path \<Rightarrow>
     DetectResult option \<times> access list" where
  "detectSync_directory c fs onUnk directory =
     (let (hit, t1) = detectSync_locks c fs onUnk directory (LOCKS c) in
      case hit of
        Some r \<Rightarrow> (Some r, t1)
      | None \<Rightarrow>
          (let (result, t2) = parsePackageJsonSync c fs (path_join directory ''package.json'') onUnk
           in (result, t1 @ t2)))"

text \<open>The loop over the directories; \<open>None\<close> at its end is the final \<^verbatim>\<open>return null\<close>.\<close>

fun detect_directories ::
  "constants \<Rightarrow> filesystem \<Rightarrow> (string \<Rightarrow> DetectResult option) option \<Rightarrow> path list \<Rightarrow>
     DetectResult option \<times> access list" where
  "detect_directories c fs onUnk [] = (None, [])"
| "detect_directories c fs onUnk (directory # directories) =
     (let (result, t1) = detect_directory c fs onUnk directory in
      case result of
        Some r \<Rightarrow> (Some r, t1)
      | None \<Rightarrow>
          (let (r, t2) = detect_directories c fs onUnk directories in (r, t1 @ t2)))"

fun detectSync_directories ::
  "constants \<Rightarrow> filesystem \<Rightarrow> (string \<Rightarrow> DetectResult option) option \<Rightarrow> path list \<Rightarrow>
     DetectResult option \<times> access list" where
  "detectSync_directories c fs onUnk [] = (None, [])"
| "detectSync_directories c fs onUnk (directory # directories) =
     (let (result, t1) = detectSync_directory c fs onUnk directory in
      case result of
        Some r \<Rightarrow> (Some r, t1)
      | None \<Rightarrow>
          (let (r, t2) = detectSync_directories c fs onUnk directories in (r, t1 @ t2)))"

text \<open>
  The two entry points. Neither reads \<^verbatim>\<open>options.strategies\<close> or \<^verbatim>\<open>options.stopDir\<close>.
\<close>

definition detect ::
  "constants \<Rightarrow> process \<Rightarrow> filesystem \<Rightarrow> DetectOptions \<Rightarrow> DetectResult option \<times> access list" where
  "detect c proc fs options =
     (case user_agent_block c proc options of
        Some r \<Rightarrow> (r, [])
      | None \<Rightarrow> detect_directories c fs (onUnknown options) (lookup_cwd proc (cwd options)))"

definition detectSync ::
  "constants \<Rightarrow> process \<Rightarrow> filesystem \<Rightarrow> DetectOptions \<Rightarrow> DetectResult option \<times> access list" where
  "detectSync c proc fs options =
     (case user_agent_block c proc options of
        Some r \<Rightarrow> (r, [])
      | None \<Rightarrow> detectSync_directories c fs (onUnknown options) (lookup_cwd proc (cwd options)))"

section \<open>Example tables, processes and file systems\<close>

text \<open>
  Modelled from the spec: \<^verbatim>\<open>constants.ts\<close> is missing, and the spec gives the known agents
  (npm, yarn, yarn@berry, pnpm, pnpm@6, bun, deno) and a Lockfile Table from lock file names
  to agent names. This is one such pair of tables, used only to run the code on concrete
  inputs; the theorems hold for every pair.
\<close>

definition constants_ts :: constants where
  "constants_ts =
     \<lparr>AGENTS = [''npm'', ''yarn'', ''yarn@berry'', ''pnpm'', ''pnpm@6'', ''bun'', ''deno''],
      LOCKS = [(''bun.lock'', ''bun''), (''bun.lockb'', ''bun''), (''deno.lock'', ''deno''),
        (''pnpm-lock.yaml'', ''pnpm''), (''yarn.lock'', ''yarn''),
        (''package-lock.json'', ''npm''), (''npm-shrinkwrap.json'', ''npm'')]\<rparr>"

text \<open>\<^verbatim>\<open>detect()\<close>: every option is left out.\<close>

definition no_options :: DetectOptions where
  "no_options =
     \<lparr>cwd = None, strategies = None, onUnknown = None, stopDir = None,
      npm_config_user_agent = JS_undefined\<rparr>"

definition process_in :: "path \<Rightarrow> string option \<Rightarrow> process" where
  "process_in d ua = \<lparr>process_cwd = d, env_npm_config_user_agent = ua\<rparr>"

text \<open>
  \<^verbatim>\<open>/a/b/c\<close> is empty, \<^verbatim>\<open>/a/b\<close> holds a lock file only, and \<^verbatim>\<open>/a\<close> holds a manifest with a
  \<^verbatim>\<open>packageManager\<close> field of another agent.
\<close>

definition fs_nested :: filesystem where
  "fs_nested =
     map_of
       [([''a''], Directory),
        ([''a'', ''package.json''],
           File (Some (JObj [(''name'', JStr ''app''), (''packageManager'', JStr ''pnpm@9.0.0'')]))),
        ([''a'', ''b''], Directory),
        ([''a'', ''b'', ''yarn.lock''], File None),
        ([''a'', ''b'', ''c''], Directory)]"

text \<open>Directories \<^verbatim>\<open>/p\<close> with two lock files, with a lock file and a manifest, with a lock file.\<close>

definition fs_two_locks :: filesystem where
  "fs_two_locks =
     map_of
       [([''p''], Directory),
        ([''p'', ''yarn.lock''], File None),
        ([''p'', ''package-lock.json''], File None)]"

definition fs_lock_and_manifest :: filesystem where
  "fs_lock_and_manifest =
     map_of
       [([''p''], Directory),
        ([''p'', ''package-lock.json''], File None),
        ([''p'', ''package.json''],
           File (Some (JObj [(''name'', JStr ''app''), (''packageManager'', JStr ''pnpm@6.14.0'')])))]"

definition fs_only_lock :: filesystem where
  "fs_only_lock =
     map_of
       [([''p''], Directory),
        ([''p'', ''package-lock.json''], File None)]"

text \<open>
  A directory \<^verbatim>\<open>/a\<close> with a lock file only; one whose manifest has a
  \<^verbatim>\<open>devEngines.packageManager\<close> field and no \<^verbatim>\<open>packageManager\<close> field; and a tree
  \<^verbatim>\<open>/a/b/c\<close> whose only signal is the manifest of \<^verbatim>\<open>/a\<close>.
\<close>

definition fs_yarn_lock :: filesystem where
  "fs_yarn_lock = map_of [([''a''], Directory), ([''a'', ''yarn.lock''], File None)]"

definition fs_devEngines :: filesystem where
  "fs_devEngines =
     map_of
       [([''a''], Directory),
        ([''a'', ''package.json''],
           File (Some (JObj [(''name'', JStr ''app''),
             (''devEngines'', JObj [(''packageManager'',
                JObj [(''name'', JStr ''pnpm''), (''version'', JStr ''9.0.0'')])])])))]"

definition fs_manifest_above :: filesystem where
  "fs_manifest_above =
     map_of
       [([''a''], Directory),
        ([''a'', ''package.json''],
           File (Some (JObj [(''name'', JStr ''app''), (''packageManager'', JStr ''npm@10.1.0'')]))),
        ([''a'', ''b''], Directory),
        ([''a'', ''b'', ''c''], Directory)]"

text \<open>An \<^verbatim>\<open>onUnknown\<close> callback that answers npm for every specifier.\<close>

definition always_npm :: "string \<Rightarrow> DetectResult option" where
  "always_npm pm = Some \<lparr>name = ''npm'', agent = ''npm'', version = None\<rparr>"

section \<open>Splitting and parsing\<close>

lemma split_no_separator: "sep \<notin> set s \<Longrightarrow> split sep s = [s]"
proof -
  assume "sep \<notin> set s"
  then have d: "dropWhile (\<lambda>x. x \<noteq> sep) s = []" by auto
  show ?thesis by (subst split.simps) (simp only: d list.case)
qed

lemma split_first_separator:
  "sep \<notin> set s \<Longrightarrow> split sep (s @ sep # t) = s # split sep t"
proof -
  assume a: "sep \<notin> set s"
  then have d: "dropWhile (\<lambda>x. x \<noteq> sep) (s @ sep # t) = sep # t"
    by (auto simp: dropWhile_append3)
  from a have t: "takeWhile (\<lambda>x. x \<noteq> sep) (s @ sep # t) = s"
    by (auto simp: takeWhile_tail)
  show ?thesis
    by (subst split.simps) (simp add: d t)
qed

lemma split_not_empty: "split sep s \<noteq> []"
  by (subst split.simps) (simp split: list.splits)

text \<open>A specifier \<^verbatim>\<open>name@version\<close> with one separator splits into its two parts.\<close>

lemma split_name_version:
  assumes "CHR ''@'' \<notin> set nm" and "CHR ''@'' \<notin> set ver"
  shows "split CHR ''@'' (nm @ CHR ''@'' # ver) = [nm, ver]"
  using assms by (simp add: split_first_separator split_no_separator)

lemma parseInt_undefined: "parseInt None = None"
  by (simp add: parseInt_def StrWhiteSpaceChar_def radix_digit_def digit_value_def)

lemma parseInt_empty: "parseInt (Some []) = None"
  by (simp add: parseInt_def)

lemma split_first_piece: "\<exists>ps. split sep s = takeWhile (\<lambda>x. x \<noteq> sep) s # ps"
proof (cases "dropWhile (\<lambda>x. x \<noteq> sep) s")
  case Nil
  then have t: "takeWhile (\<lambda>x. x \<noteq> sep) s = s"
    by (metis takeWhile_dropWhile_id append_Nil2)
  have "split sep s = [s]"
    by (subst split.simps) (simp only: Nil list.case)
  then have "split sep s = takeWhile (\<lambda>x. x \<noteq> sep) s # []"
    by (simp only: t)
  then show ?thesis by blast
next
  case (Cons x rest)
  have "split sep s = takeWhile (\<lambda>x. x \<noteq> sep) s # split sep rest"
    by (subst split.simps) (simp only: Cons list.case)
  then show ?thesis by blast
qed

text \<open>
  The pieces the code keeps against the specification's parts: the names agree, and the
  code's version is the specification's version cut at its first \<^verbatim>\<open>@\<close>.
\<close>

lemma split_spec_name_version:
  assumes "split CHR ''@'' (strip_caret pm) = nm # rest"
  shows "nm = fst (spec_name_version pm) \<and>
         second_piece rest =
           map_option (takeWhile (\<lambda>x. x \<noteq> CHR ''@'')) (snd (spec_name_version pm))"
proof (cases "dropWhile (\<lambda>x. x \<noteq> CHR ''@'') (strip_caret pm)")
  case Nil
  then have t: "takeWhile (\<lambda>x. x \<noteq> CHR ''@'') (strip_caret pm) = strip_caret pm"
    by (metis takeWhile_dropWhile_id append_Nil2)
  have one: "split CHR ''@'' (strip_caret pm) = [strip_caret pm]"
    by (subst split.simps) (simp only: Nil list.case)
  have sv: "spec_name_version pm = (strip_caret pm, None)"
    unfolding spec_name_version_def Let_def Nil t by simp
  show ?thesis
    using assms one by (simp add: sv second_piece_def)
next
  case (Cons x v)
  have s: "split CHR ''@'' (strip_caret pm) =
      takeWhile (\<lambda>x. x \<noteq> CHR ''@'') (strip_caret pm) # split CHR ''@'' v"
    by (subst split.simps) (simp only: Cons list.case)
  have sv: "spec_name_version pm =
      (takeWhile (\<lambda>x. x \<noteq> CHR ''@'') (strip_caret pm), Some v)"
    unfolding spec_name_version_def Let_def Cons by simp
  obtain ps where "split CHR ''@'' v = takeWhile (\<lambda>x. x \<noteq> CHR ''@'') v # ps"
    using split_first_piece by blast
  with s assms show ?thesis
    by (simp add: sv second_piece_def)
qed

text \<open>
  \<^verbatim>\<open>parseInt\<close> never reads past a \<^verbatim>\<open>@\<close>, which is no white space, sign, prefix or digit:
  the leading integer of the cut version is that of the whole version.
\<close>

lemma dropWhile_takeWhile_commute:
  "(\<And>x. Q x \<Longrightarrow> P x) \<Longrightarrow> dropWhile Q (takeWhile P s) = takeWhile P (dropWhile Q s)"
  by (induction s) auto

lemma takeWhile_takeWhile_weaker:
  "(\<And>x. D x \<Longrightarrow> P x) \<Longrightarrow> takeWhile D (takeWhile P s) = takeWhile D s"
  by (induction s) auto

lemma strip_sign_takeWhile:
  "strip_sign (takeWhile (\<lambda>x. x \<noteq> CHR ''@'') s) =
     (fst (strip_sign s), takeWhile (\<lambda>x. x \<noteq> CHR ''@'') (snd (strip_sign s)))"
  by (cases s) auto

lemma strip_prefix_takeWhile:
  "strip_prefix (takeWhile (\<lambda>x. x \<noteq> CHR ''@'') s) =
     (fst (strip_prefix s), takeWhile (\<lambda>x. x \<noteq> CHR ''@'') (snd (strip_prefix s)))"
proof (cases s)
  case Nil
  then show ?thesis by simp
next
  case (Cons c0 t)
  show ?thesis
  proof (cases t)
    case Nil
    with Cons show ?thesis by simp
  next
    case (Cons c1 cs)
    with \<open>s = c0 # t\<close> show ?thesis
      by (cases "takeWhile (\<lambda>x. x \<noteq> CHR ''@'') cs") auto
  qed
qed

lemma white_space_not_separator: "StrWhiteSpaceChar x \<Longrightarrow> x \<noteq> CHR ''@''"
  by (auto simp: StrWhiteSpaceChar_def)

lemma radix_digit_not_separator: "radix_digit R x \<Longrightarrow> x \<noteq> CHR ''@''"
  by (auto simp: radix_digit_def digit_value_def)

lemma parseInt_up_to_separator:
  "parseInt (Some (takeWhile (\<lambda>x. x \<noteq> CHR ''@'') v)) = parseInt (Some v)"
proof -
  let ?P = "\<lambda>x. x \<noteq> CHR ''@''"
  have 1: "dropWhile StrWhiteSpaceChar (takeWhile ?P v) =
      takeWhile ?P (dropWhile StrWhiteSpaceChar v)"
    by (rule dropWhile_takeWhile_commute) (rule white_space_not_separator)
  have 4: "takeWhile (radix_digit R) (takeWhile ?P t) = takeWhile (radix_digit R) t" for R t
    by (rule takeWhile_takeWhile_weaker) (rule radix_digit_not_separator)
  show ?thesis
    by (simp add: parseInt_def 1 strip_sign_takeWhile strip_prefix_takeWhile 4 case_prod_beta Let_def)
qed

text \<open>\<^verbatim>\<open>parseInt\<close> on decimal, signed, hexadecimal, padded and non-numeric input.\<close>

lemma parseInt_examples:
  "parseInt (Some ''10.0.0'') = Some 10 \<and> parseInt (Some ''-1'') = Some (- 1) \<and>
   parseInt (Some ''0x1F'') = Some 31 \<and> parseInt (Some '' 6'') = Some 6 \<and>
   parseInt (Some [CHR 0xA0, CHR ''6'']) = Some 6 \<and> parseInt (Some ''v6'') = None \<and>
   parseInt (Some ''+7.1'') = Some 7 \<and> parseInt (Some ''0x'') = None"
  by (simp add: parseInt_def StrWhiteSpaceChar_def radix_digit_def digit_value_def mathInt_def)

section \<open>The two forms of the probe and of the resolver agree\<close>

lemma fileExistsSync_fst: "fst (fileExistsSync fs p) = fst (fileExists fs p)"
  by (simp add: fileExistsSync_def fileExists_def)

lemma fileExistsSync_paths:
  "map access_path (snd (fileExistsSync fs p)) = map access_path (snd (fileExists fs p))"
  by (simp add: fileExistsSync_def fileExists_def)

lemma parsePackageJsonSync_fst:
  "fst (parsePackageJsonSync c fs p u) = fst (parsePackageJson c fs p u)"
  by (simp add: parsePackageJsonSync_def parsePackageJson_def fileExistsSync_def fileExists_def
      case_prod_beta)

lemma parsePackageJsonSync_paths:
  "map access_path (snd (parsePackageJsonSync c fs p u)) =
   map access_path (snd (parsePackageJson c fs p u))"
  by (simp add: parsePackageJsonSync_def parsePackageJson_def fileExistsSync_def fileExists_def
      case_prod_beta)

lemma detectSync_locks_fst:
  "fst (detectSync_locks c fs u d locks) = fst (detect_locks c fs u d locks)"
proof (induction locks)
  case Nil
  show ?case by simp
next
  case (Cons e locks)
  obtain lock nm where e: "e = (lock, nm)" by (cases e)
  have p: "fst (parsePackageJsonSync c fs (path_join d ''package.json'') u) =
           fst (parsePackageJson c fs (path_join d ''package.json'') u)"
    by (rule parsePackageJsonSync_fst)
  show ?case
    using Cons.IH p
    by (simp add: e fileExistsSync_def fileExists_def case_prod_beta split: option.splits)
qed

lemma detectSync_locks_paths:
  "map access_path (snd (detectSync_locks c fs u d locks)) =
   map access_path (snd (detect_locks c fs u d locks))"
proof (induction locks)
  case Nil
  show ?case by simp
next
  case (Cons e locks)
  obtain lock nm where e: "e = (lock, nm)" by (cases e)
  have p: "fst (parsePackageJsonSync c fs (path_join d ''package.json'') u) =
           fst (parsePackageJson c fs (path_join d ''package.json'') u)"
    by (rule parsePackageJsonSync_fst)
  have q: "map access_path (snd (parsePackageJsonSync c fs (path_join d ''package.json'') u)) =
           map access_path (snd (parsePackageJson c fs (path_join d ''package.json'') u))"
    by (rule parsePackageJsonSync_paths)
  show ?case
    using Cons.IH p q
    by (simp add: e fileExistsSync_def fileExists_def case_prod_beta split: option.splits)
qed

lemma detectSync_directory_fst:
  "fst (detectSync_directory c fs u d) = fst (detect_directory c fs u d)"
  using detectSync_locks_fst [of c fs u d "LOCKS c"]
    parsePackageJsonSync_fst [of c fs "path_join d ''package.json''" u]
  by (simp add: detectSync_directory_def detect_directory_def case_prod_beta split: option.splits)

lemma detectSync_directory_paths:
  "map access_path (snd (detectSync_directory c fs u d)) =
   map access_path (snd (detect_directory c fs u d))"
  using detectSync_locks_fst [of c fs u d "LOCKS c"]
    detectSync_locks_paths [of c fs u d "LOCKS c"]
    parsePackageJsonSync_fst [of c fs "path_join d ''package.json''" u]
    parsePackageJsonSync_paths [of c fs "path_join d ''package.json''" u]
  by (simp add: detectSync_directory_def detect_directory_def case_prod_beta split: option.splits)

lemma detectSync_directories_fst:
  "fst (detectSync_directories c fs u ds) = fst (detect_directories c fs u ds)"
proof (induction ds)
  case Nil
  show ?case by simp
next
  case (Cons d ds)
  show ?case
    using Cons.IH detectSync_directory_fst [of c fs u d]
    by (simp add: case_prod_beta split: option.splits)
qed

lemma detectSync_directories_paths:
  "map access_path (snd (detectSync_directories c fs u ds)) =
   map access_path (snd (detect_directories c fs u ds))"
proof (induction ds)
  case Nil
  show ?case by simp
next
  case (Cons d ds)
  show ?case
    using Cons.IH detectSync_directory_fst [of c fs u d] detectSync_directory_paths [of c fs u d]
    by (simp add: case_prod_beta split: option.splits)
qed

section \<open>The directory walker\<close>

text \<open>
  The sequence of \<^verbatim>\<open>lookup\<close> is the list of the non-empty prefixes of the start, longest
  first: it is as long as the start is deep, has no repeats, never holds the root, and
  every later directory is a proper ancestor of every earlier one.
\<close>

lemma lookup_root: "lookup [] = []"
  by (simp add: lookup.simps root_def)

lemma lookup_snoc: "lookup (d @ [seg]) = (d @ [seg]) # lookup d"
  by (subst lookup.simps) (simp add: root_def dirname_def)

lemma lookup_closed_form: "lookup d = map (\<lambda>n. take (Suc n) d) (rev [0..<length d])"
proof (induction d rule: rev_induct)
  case Nil
  show ?case by (simp add: lookup_root)
next
  case (snoc seg d)
  have "map (\<lambda>n. take (Suc n) (d @ [seg])) (rev [0..<length d]) =
        map (\<lambda>n. take (Suc n) d) (rev [0..<length d])"
    by (rule map_cong) auto
  with snoc show ?case
    by (simp add: lookup_snoc)
qed

lemma length_lookup: "length (lookup d) = length d"
  by (simp add: lookup_closed_form)

lemma lookup_lengths: "map length (lookup d) = map Suc (rev [0..<length d])"
proof -
  have "map length (lookup d) = map (\<lambda>n. length (take (Suc n) d)) (rev [0..<length d])"
    by (simp add: lookup_closed_form comp_def)
  also have "\<dots> = map Suc (rev [0..<length d])"
    by (rule map_cong) auto
  finally show ?thesis .
qed

lemma distinct_lookup: "distinct (lookup d)"
proof -
  have "distinct (map length (lookup d))"
    by (simp add: lookup_lengths distinct_map)
  then show ?thesis
    by (simp add: distinct_map)
qed

lemma root_not_in_lookup: "root \<notin> set (lookup d)"
proof
  assume "root \<in> set (lookup d)"
  then have "length root \<in> set (map length (lookup d))"
    by (metis image_eqI set_map)
  then show False
    by (auto simp: lookup_lengths root_def)
qed

lemma lookup_descending:
  "sorted_wrt (\<lambda>child ancestor. \<exists>segs. segs \<noteq> [] \<and> child = ancestor @ segs) (lookup d)"
proof (induction d rule: rev_induct)
  case Nil
  show ?case by (simp add: lookup_root)
next
  case (snoc seg d)
  have "\<exists>segs. segs \<noteq> [] \<and> d @ [seg] = a @ segs" if "a \<in> set (lookup d)" for a
  proof -
    from that obtain n where "a = take n d"
      by (auto simp: lookup_closed_form)
    then have "d @ [seg] = a @ (drop n d @ [seg])" by simp
    then show ?thesis by blast
  qed
  with snoc show ?case
    by (simp add: lookup_snoc)
qed

section \<open>Accesses and the first hit\<close>

lemma dirname_path_join: "dirname (path_join d f) = d"
  by (simp add: dirname_def path_join_def)

lemma fileExists_accesses: "snd (fileExists fs p) = [StatAsync p]"
  by (simp add: fileExists_def)

lemma parsePackageJson_accesses:
  "a \<in> set (snd (parsePackageJson c fs p u)) \<Longrightarrow> access_path a = p"
  by (auto simp: parsePackageJson_def fileExists_def handlePackageManager_def case_prod_beta
      split: if_splits)

lemma detect_locks_accesses:
  "a \<in> set (snd (detect_locks c fs u d locks)) \<Longrightarrow> dirname (access_path a) = d"
proof (induction locks)
  case Nil
  then show ?case by simp
next
  case (Cons e locks)
  obtain lock nm where e: "e = (lock, nm)" by (cases e)
  from Cons.prems consider
      "a = StatAsync (path_join d lock)"
    | "a \<in> set (snd (parsePackageJson c fs (path_join d ''package.json'') u))"
    | "a \<in> set (snd (detect_locks c fs u d locks))"
    by (auto simp: e fileExists_def case_prod_beta split: if_splits option.splits)
  then show ?case
  proof cases
    case 1
    then show ?thesis by (simp add: dirname_path_join)
  next
    case 2
    then show ?thesis
      using parsePackageJson_accesses dirname_path_join by metis
  next
    case 3
    then show ?thesis by (rule Cons.IH)
  qed
qed

lemma detect_directory_accesses:
  "a \<in> set (snd (detect_directory c fs u d)) \<Longrightarrow> dirname (access_path a) = d"
proof -
  assume "a \<in> set (snd (detect_directory c fs u d))"
  then consider
      "a \<in> set (snd (detect_locks c fs u d (LOCKS c)))"
    | "a \<in> set (snd (parsePackageJson c fs (path_join d ''package.json'') u))"
    by (auto simp: detect_directory_def case_prod_beta split: option.splits)
  then show ?thesis
  proof cases
    case 1
    then show ?thesis by (rule detect_locks_accesses)
  next
    case 2
    then show ?thesis
      using parsePackageJson_accesses dirname_path_join by metis
  qed
qed

lemma detect_directories_first_hit:
  assumes "\<forall>x \<in> set closer. fst (detect_directory c fs u x) = None"
    and "fst (detect_directory c fs u d) = Some r"
  shows "detect_directories c fs u (closer @ d # ancestors) =
           (Some r, concat (map (\<lambda>x. snd (detect_directory c fs u x)) (closer @ [d])))"
  using assms
  by (induction closer) (simp_all add: case_prod_beta)

lemma detect_locks_first_hit:
  assumes "\<forall>e \<in> set earlier. \<not> fst (fileExists fs (path_join d (fst e)))"
    and "fst (fileExists fs (path_join d L))"
  shows "fst (detect_locks c fs u d (earlier @ (L, A) # later)) =
           Some (case fst (parsePackageJson c fs (path_join d ''package.json'') u) of
                   Some r \<Rightarrow> r
                 | None \<Rightarrow> \<lparr>name = A, agent = A, version = None\<rparr>)"
  using assms
proof (induction earlier)
  case Nil
  then show ?case
    by (simp add: case_prod_beta split: option.splits)
next
  case (Cons e earlier)
  obtain lock nm where e: "e = (lock, nm)" by (cases e)
  from Cons show ?case
    by (simp add: e case_prod_beta)
qed

lemma detect_directory_lock_hit:
  assumes "LOCKS c = earlier @ (L, A) # later"
    and "\<forall>e \<in> set earlier. \<not> fst (fileExists fs (path_join d (fst e)))"
    and "fst (fileExists fs (path_join d L))"
  shows "fst (detect_directory c fs u d) =
           Some (case fst (parsePackageJson c fs (path_join d ''package.json'') u) of
                   Some r \<Rightarrow> r
                 | None \<Rightarrow> \<lparr>name = A, agent = A, version = None\<rparr>)"
  using detect_locks_first_hit [OF assms(2,3), of c u A later] assms(1)
  by (simp add: detect_directory_def case_prod_beta)

lemma parsePackageJson_missing:
  "fs p = None \<Longrightarrow> fst (parsePackageJson c fs p u) = None"
  by (simp add: parsePackageJson_def fileExists_def)

text \<open>Neither entry point depends on \<^verbatim>\<open>options.strategies\<close> or on \<^verbatim>\<open>options.stopDir\<close>.\<close>

lemma detect_ignores_strategies:
  "detect c proc fs (options\<lparr>strategies := s\<rparr>) = detect c proc fs options \<and>
   detectSync c proc fs (options\<lparr>strategies := s\<rparr>) = detectSync c proc fs options"
  by (auto simp: detect_def detectSync_def user_agent_block_def Let_def split: option.splits)

lemma detect_ignores_stopDir:
  "detect c proc fs (options\<lparr>stopDir := t\<rparr>) = detect c proc fs options \<and>
   detectSync c proc fs (options\<lparr>stopDir := t\<rparr>) = detectSync c proc fs options"
  by (auto simp: detect_def detectSync_def user_agent_block_def Let_def split: option.splits)

section \<open>The properties\<close>

text \<open>
  C1. When the loop over the directories runs and a visited directory yields a result
  (every closer directory having yielded none), \<^verbatim>\<open>detect\<close> and \<^verbatim>\<open>detectSync\<close> return that
  result, and every file they accessed lies in a visited directory, none in an ancestor of
  the directory that yielded: a lock file closer to \<^verbatim>\<open>cwd\<close> wins over a \<^verbatim>\<open>packageManager\<close>
  field farther up.
\<close>

theorem detect_returns_first_hit:
  assumes "user_agent_block c proc options = None"
    and "lookup_cwd proc (cwd options) = closer @ directory # ancestors"
    and "\<forall>d \<in> set closer. fst (detect_directory c fs (onUnknown options) d) = None"
    and "fst (detect_directory c fs (onUnknown options) directory) = Some r"
  shows "fst (detect c proc fs options) = Some r \<and>
         fst (detectSync c proc fs options) = Some r \<and>
         (\<forall>a \<in> set (snd (detect c proc fs options)) \<union> set (snd (detectSync c proc fs options)).
            dirname (access_path a) \<in> set (closer @ [directory]) \<and>
            dirname (access_path a) \<notin> set ancestors)"
proof -
  let ?u = "onUnknown options"
  let ?visited = "closer @ [directory]"
  have walk: "detect c proc fs options =
      (Some r, concat (map (\<lambda>x. snd (detect_directory c fs ?u x)) ?visited))"
    using assms(1,2) detect_directories_first_hit [OF assms(3,4)]
    by (simp add: detect_def)
  have res: "fst (detect c proc fs options) = Some r"
    by (simp add: walk)
  have sync: "fst (detectSync c proc fs options) = fst (detect c proc fs options)"
    and paths: "map access_path (snd (detectSync c proc fs options)) =
      map access_path (snd (detect c proc fs options))"
    using assms(1)
    by (simp_all add: detect_def detectSync_def detectSync_directories_fst
        detectSync_directories_paths)
  have async_dir: "dirname (access_path a) \<in> set ?visited"
    if "a \<in> set (snd (detect c proc fs options))" for a
  proof -
    from that obtain x where "x \<in> set ?visited"
      and "a \<in> set (snd (detect_directory c fs ?u x))"
      by (auto simp: walk)
    then show ?thesis
      using detect_directory_accesses by metis
  qed
  have any_dir: "dirname (access_path a) \<in> set ?visited"
    if "a \<in> set (snd (detect c proc fs options)) \<union> set (snd (detectSync c proc fs options))"
    for a
  proof (cases "a \<in> set (snd (detect c proc fs options))")
    case True
    then show ?thesis by (rule async_dir)
  next
    case False
    with that have "access_path a \<in> set (map access_path (snd (detectSync c proc fs options)))"
      by simp
    then obtain b where "b \<in> set (snd (detect c proc fs options))"
      and "access_path b = access_path a"
      by (auto simp: paths)
    then show ?thesis
      using async_dir by metis
  qed
  have "distinct (closer @ directory # ancestors)"
    using distinct_lookup [of "case cwd options of None \<Rightarrow> process_cwd proc | Some d \<Rightarrow> d"]
      assms(2)
    by (simp add: lookup_cwd_def)
  then have apart: "set ?visited \<inter> set ancestors = {}"
    by auto
  show ?thesis
    using res sync any_dir apart by auto
qed

text \<open>
  In the example tree the walk from \<^verbatim>\<open>/a/b/c\<close> returns the yarn of the lock file in
  \<^verbatim>\<open>/a/b\<close>, though \<^verbatim>\<open>/a\<close> alone would yield pnpm, and never probes \<^verbatim>\<open>/a/package.json\<close>.
\<close>

theorem detect_returns_first_hit_witness:
  "user_agent_block constants_ts (process_in [''a'', ''b'', ''c''] None) no_options = None \<and>
   lookup_cwd (process_in [''a'', ''b'', ''c''] None) (cwd no_options) =
     [[''a'', ''b'', ''c'']] @ [''a'', ''b''] # [[''a'']] \<and>
   fst (detect_directory constants_ts fs_nested (onUnknown no_options) [''a'', ''b'', ''c'']) = None \<and>
   fst (detect_directory constants_ts fs_nested (onUnknown no_options) [''a'', ''b'']) =
     Some \<lparr>name = ''yarn'', agent = ''yarn'', version = None\<rparr> \<and>
   fst (detect_directory constants_ts fs_nested (onUnknown no_options) [''a'']) =
     Some \<lparr>name = ''pnpm'', agent = ''pnpm'', version = Some ''9.0.0''\<rparr> \<and>
   fst (detect constants_ts (process_in [''a'', ''b'', ''c''] None) fs_nested no_options) =
     Some \<lparr>name = ''yarn'', agent = ''yarn'', version = None\<rparr> \<and>
   fst (detectSync constants_ts (process_in [''a'', ''b'', ''c''] None) fs_nested no_options) =
     Some \<lparr>name = ''yarn'', agent = ''yarn'', version = None\<rparr> \<and>
   StatAsync [''a'', ''package.json'']
     \<notin> set (snd (detect constants_ts (process_in [''a'', ''b'', ''c''] None) fs_nested no_options))"
proof -
  let ?p = "process_in [''a'', ''b'', ''c''] None"
  have h1: "user_agent_block constants_ts ?p no_options = None"
    by (simp add: user_agent_block_def no_options_def)
  have h2: "lookup_cwd ?p (cwd no_options) = [[''a'', ''b'', ''c'']] @ [''a'', ''b''] # [[''a'']]"
    by (simp add: lookup_cwd_def no_options_def process_in_def lookup.simps root_def dirname_def)
  have c: "fst (detect_directory constants_ts fs_nested (onUnknown no_options) [''a'', ''b'', ''c'']) = None"
    by code_simp
  have h3: "\<forall>d \<in> set [[''a'', ''b'', ''c'']].
      fst (detect_directory constants_ts fs_nested (onUnknown no_options) d) = None"
    using c by simp
  have h4: "fst (detect_directory constants_ts fs_nested (onUnknown no_options) [''a'', ''b'']) =
      Some \<lparr>name = ''yarn'', agent = ''yarn'', version = None\<rparr>"
    by code_simp
  have far: "fst (detect_directory constants_ts fs_nested (onUnknown no_options) [''a'']) =
     Some \<lparr>name = ''pnpm'', agent = ''pnpm'', version = Some ''9.0.0''\<rparr>"
    by code_simp
  have "dirname (access_path (StatAsync [''a'', ''package.json''])) \<in> set [[''a'']]"
    by (simp add: dirname_def)
  then have no: "StatAsync [''a'', ''package.json'']
     \<notin> set (snd (detect constants_ts ?p fs_nested no_options))"
    using detect_returns_first_hit [OF h1 h2 h3 h4] by blast
  show ?thesis
    using h1 h2 c h4 far no detect_returns_first_hit [OF h1 h2 h3 h4] by simp
qed

text \<open>
  C2, amended. In a visited directory, let \<open>L\<close> be the first entry of the lock file table,
  in table order, whose file exists there, and \<open>A\<close> its agent name. Then \<^verbatim>\<open>detect\<close>
  returns the result of the sibling \<^verbatim>\<open>package.json\<close> when that is not null, and otherwise
  exactly \<open>{name: A, agent: A}\<close> with no version; with no manifest in the directory it
  returns \<open>{name: A, agent: A}\<close>.
\<close>

theorem detect_first_lockfile_in_table_order:
  assumes "user_agent_block c proc options = None"
    and "lookup_cwd proc (cwd options) = closer @ directory # ancestors"
    and "\<forall>d \<in> set closer. fst (detect_directory c fs (onUnknown options) d) = None"
    and "LOCKS c = earlier @ (L, A) # later"
    and "\<forall>e \<in> set earlier. \<not> fst (fileExists fs (path_join directory (fst e)))"
    and "fst (fileExists fs (path_join directory L))"
  shows "fst (detect c proc fs options) =
           Some (case fst (parsePackageJson c fs (path_join directory ''package.json'')
                            (onUnknown options)) of
                   Some r \<Rightarrow> r
                 | None \<Rightarrow> \<lparr>name = A, agent = A, version = None\<rparr>) \<and>
         (fs (path_join directory ''package.json'') = None \<longrightarrow>
            fst (detect c proc fs options) = Some \<lparr>name = A, agent = A, version = None\<rparr>)"
proof -
  let ?r = "case fst (parsePackageJson c fs (path_join directory ''package.json'')
                            (onUnknown options)) of
                   Some r \<Rightarrow> r
                 | None \<Rightarrow> \<lparr>name = A, agent = A, version = None\<rparr>"
  have hit: "fst (detect_directory c fs (onUnknown options) directory) = Some ?r"
    using assms(4,5,6) by (rule detect_directory_lock_hit)
  have "detect c proc fs options =
      (Some ?r, concat (map (\<lambda>x. snd (detect_directory c fs (onUnknown options) x))
         (closer @ [directory])))"
    using assms(1,2) detect_directories_first_hit [OF assms(3) hit]
    by (simp add: detect_def)
  then have res: "fst (detect c proc fs options) = Some ?r"
    by simp
  show ?thesis
    using res parsePackageJson_missing [of fs "path_join directory ''package.json''" c "onUnknown options"]
    by auto
qed

theorem detect_first_lockfile_in_table_order_witness:
  "user_agent_block constants_ts (process_in [''p''] None) no_options = None \<and>
   lookup_cwd (process_in [''p''] None) (cwd no_options) = [[''p'']] \<and>
   fst (fileExists fs_only_lock (path_join [''p''] ''package-lock.json'')) \<and>
   fs_only_lock (path_join [''p''] ''package.json'') = None \<and>
   fst (detect constants_ts (process_in [''p''] None) fs_only_lock no_options) =
     Some \<lparr>name = ''npm'', agent = ''npm'', version = None\<rparr> \<and>
   fst (detect constants_ts (process_in [''p''] None) fs_lock_and_manifest no_options) =
     Some \<lparr>name = ''pnpm'', agent = ''pnpm@6'', version = Some ''6.14.0''\<rparr> \<and>
   fst (detect constants_ts (process_in [''p''] None) fs_two_locks no_options) =
     Some \<lparr>name = ''yarn'', agent = ''yarn'', version = None\<rparr>"
proof -
  let ?p = "process_in [''p''] None"
  have h1: "user_agent_block constants_ts ?p no_options = None"
    by (simp add: user_agent_block_def no_options_def)
  have h2: "lookup_cwd ?p (cwd no_options) = [] @ [''p''] # []"
    by (simp add: lookup_cwd_def no_options_def process_in_def lookup.simps root_def dirname_def)
  have h3: "\<forall>d \<in> set []. fst (detect_directory constants_ts fs (onUnknown no_options) d) = None"
    for fs
    by simp
  have npm: "LOCKS constants_ts =
      [(''bun.lock'', ''bun''), (''bun.lockb'', ''bun''), (''deno.lock'', ''deno''),
       (''pnpm-lock.yaml'', ''pnpm''), (''yarn.lock'', ''yarn'')] @
      (''package-lock.json'', ''npm'') # [(''npm-shrinkwrap.json'', ''npm'')]"
    by (simp add: constants_ts_def)
  have yarn: "LOCKS constants_ts =
      [(''bun.lock'', ''bun''), (''bun.lockb'', ''bun''), (''deno.lock'', ''deno''),
       (''pnpm-lock.yaml'', ''pnpm'')] @
      (''yarn.lock'', ''yarn'') #
      [(''package-lock.json'', ''npm''), (''npm-shrinkwrap.json'', ''npm'')]"
    by (simp add: constants_ts_def)
  have a5: "\<forall>e \<in> set [(''bun.lock'', ''bun''), (''bun.lockb'', ''bun''), (''deno.lock'', ''deno''),
       (''pnpm-lock.yaml'', ''pnpm''), (''yarn.lock'', ''yarn'')].
       \<not> fst (fileExists fs_only_lock (path_join [''p''] (fst e)))"
    by (simp add: fileExists_def fs_only_lock_def path_join_def)
  have a6: "fst (fileExists fs_only_lock (path_join [''p''] ''package-lock.json''))"
    by (simp add: fileExists_def fs_only_lock_def path_join_def)
  have a7: "fs_only_lock (path_join [''p''] ''package.json'') = None"
    by (simp add: fs_only_lock_def path_join_def)
  have b5: "\<forall>e \<in> set [(''bun.lock'', ''bun''), (''bun.lockb'', ''bun''), (''deno.lock'', ''deno''),
       (''pnpm-lock.yaml'', ''pnpm''), (''yarn.lock'', ''yarn'')].
       \<not> fst (fileExists fs_lock_and_manifest (path_join [''p''] (fst e)))"
    by (simp add: fileExists_def fs_lock_and_manifest_def path_join_def)
  have b6: "fst (fileExists fs_lock_and_manifest (path_join [''p''] ''package-lock.json''))"
    by (simp add: fileExists_def fs_lock_and_manifest_def path_join_def)
  have b7: "fst (parsePackageJson constants_ts fs_lock_and_manifest
       (path_join [''p''] ''package.json'') (onUnknown no_options)) =
       Some \<lparr>name = ''pnpm'', agent = ''pnpm@6'', version = Some ''6.14.0''\<rparr>"
    by code_simp
  have c5: "\<forall>e \<in> set [(''bun.lock'', ''bun''), (''bun.lockb'', ''bun''), (''deno.lock'', ''deno''),
       (''pnpm-lock.yaml'', ''pnpm'')].
       \<not> fst (fileExists fs_two_locks (path_join [''p''] (fst e)))"
    by (simp add: fileExists_def fs_two_locks_def path_join_def)
  have c6: "fst (fileExists fs_two_locks (path_join [''p''] ''yarn.lock''))"
    by (simp add: fileExists_def fs_two_locks_def path_join_def)
  have c7: "fs_two_locks (path_join [''p''] ''package.json'') = None"
    by (simp add: fs_two_locks_def path_join_def)
  have w1: "fst (detect constants_ts ?p fs_only_lock no_options) =
     Some \<lparr>name = ''npm'', agent = ''npm'', version = None\<rparr>"
    using detect_first_lockfile_in_table_order [OF h1 h2 h3 npm a5 a6] a7 by blast
  have w2: "fst (detect constants_ts ?p fs_lock_and_manifest no_options) =
     Some \<lparr>name = ''pnpm'', agent = ''pnpm@6'', version = Some ''6.14.0''\<rparr>"
    using detect_first_lockfile_in_table_order [OF h1 h2 h3 npm b5 b6] by (simp add: b7)
  have w3: "fst (detect constants_ts ?p fs_two_locks no_options) =
     Some \<lparr>name = ''yarn'', agent = ''yarn'', version = None\<rparr>"
    using detect_first_lockfile_in_table_order [OF h1 h2 h3 yarn c5 c6] c7 by blast
  show ?thesis
    using h1 h2 a6 a7 w1 w2 w3 by simp
qed

text \<open>
  As first stated, for any lock file of the directory, the property fails: \<^verbatim>\<open>/p\<close> holds
  \<^verbatim>\<open>package-lock.json\<close>, which the table maps to npm, and no manifest, and \<^verbatim>\<open>detect\<close>
  returns yarn, for the \<^verbatim>\<open>yarn.lock\<close> that stands earlier in the table.
\<close>

theorem detect_second_lockfile_counterexample:
  "(''package-lock.json'', ''npm'') \<in> set (LOCKS constants_ts) \<and>
   fst (fileExists fs_two_locks (path_join [''p''] ''package-lock.json'')) \<and>
   fs_two_locks (path_join [''p''] ''package.json'') = None \<and>
   fst (detect constants_ts (process_in [''p''] None) fs_two_locks no_options) =
     Some \<lparr>name = ''yarn'', agent = ''yarn'', version = None\<rparr> \<and>
   fst (detect constants_ts (process_in [''p''] None) fs_two_locks no_options) \<noteq>
     Some \<lparr>name = ''npm'', agent = ''npm'', version = None\<rparr>"
proof -
  have 1: "(''package-lock.json'', ''npm'') \<in> set (LOCKS constants_ts)"
    by (simp add: constants_ts_def)
  have 2: "fst (fileExists fs_two_locks (path_join [''p''] ''package-lock.json''))"
    by (simp add: fileExists_def fs_two_locks_def path_join_def)
  have 3: "fs_two_locks (path_join [''p''] ''package.json'') = None"
    by (simp add: fs_two_locks_def path_join_def)
  have 4: "fst (detect constants_ts (process_in [''p''] None) fs_two_locks no_options) =
     Some \<lparr>name = ''yarn'', agent = ''yarn'', version = None\<rparr>"
    by code_simp
  show ?thesis
    using 1 2 3 4 by simp
qed

text \<open>
  C3. \<^verbatim>\<open>DetectOptions.strategies\<close> is documented to select and order the strategies, but
  \<^verbatim>\<open>detect\<close> never reads it. With only the \<^verbatim>\<open>packageManager-field\<close> strategy configured,
  a directory that holds just \<^verbatim>\<open>yarn.lock\<close> still yields yarn from the lock file; with the
  \<^verbatim>\<open>devEngines-field\<close> strategy configured, a manifest whose only signal is
  \<^verbatim>\<open>devEngines.packageManager\<close> yields null.
\<close>

theorem detect_strategies_not_read:
  "fst (detect constants_ts (process_in [''a''] None) fs_yarn_lock
     (no_options\<lparr>strategies := Some [packageManager_field]\<rparr>)) =
     Some \<lparr>name = ''yarn'', agent = ''yarn'', version = None\<rparr> \<and>
   fst (detect constants_ts (process_in [''a''] None) fs_devEngines
     (no_options\<lparr>strategies := Some [devEngines_field]\<rparr>)) = None"
proof -
  have 1: "fst (detect constants_ts (process_in [''a''] None) fs_yarn_lock
     (no_options\<lparr>strategies := Some [packageManager_field]\<rparr>)) =
     Some \<lparr>name = ''yarn'', agent = ''yarn'', version = None\<rparr>" by code_simp
  have 2: "fst (detect constants_ts (process_in [''a''] None) fs_devEngines
     (no_options\<lparr>strategies := Some [devEngines_field]\<rparr>)) = None" by code_simp
  show ?thesis using 1 2 by simp
qed

text \<open>
  C4. \<^verbatim>\<open>DetectOptions.stopDir\<close> is documented as the path to stop traversing at, but
  neither \<^verbatim>\<open>lookup\<close> nor \<^verbatim>\<open>detect\<close> reads it. Started at \<^verbatim>\<open>/a/b/c\<close> with \<^verbatim>\<open>stopDir\<close>
  \<^verbatim>\<open>/a/b\<close>, and also with \<^verbatim>\<open>stopDir\<close> \<^verbatim>\<open>/a\<close>, the walk goes on to \<^verbatim>\<open>/a\<close>, reads its
  manifest and returns its agent.
\<close>

theorem detect_stopDir_not_read:
  "fst (detect constants_ts (process_in [''a'', ''b'', ''c''] None) fs_manifest_above
     (no_options\<lparr>stopDir := Some (StopDirPath [''a'', ''b''])\<rparr>)) =
     Some \<lparr>name = ''npm'', agent = ''npm'', version = Some ''10.1.0''\<rparr> \<and>
   ReadFileSync [''a'', ''package.json'']
     \<in> set (snd (detect constants_ts (process_in [''a'', ''b'', ''c''] None) fs_manifest_above
          (no_options\<lparr>stopDir := Some (StopDirPath [''a'', ''b''])\<rparr>))) \<and>
   fst (detect constants_ts (process_in [''a'', ''b'', ''c''] None) fs_manifest_above
     (no_options\<lparr>stopDir := Some (StopDirPath [''a''])\<rparr>)) =
     Some \<lparr>name = ''npm'', agent = ''npm'', version = Some ''10.1.0''\<rparr> \<and>
   ReadFileSync [''a'', ''package.json'']
     \<in> set (snd (detect constants_ts (process_in [''a'', ''b'', ''c''] None) fs_manifest_above
          (no_options\<lparr>stopDir := Some (StopDirPath [''a''])\<rparr>))) \<and>
   lookup [''a'', ''b'', ''c''] = [[''a'', ''b'', ''c''], [''a'', ''b''], [''a'']]"
proof -
  have 1: "fst (detect constants_ts (process_in [''a'', ''b'', ''c''] None) fs_manifest_above
     (no_options\<lparr>stopDir := Some (StopDirPath [''a'', ''b''])\<rparr>)) =
     Some \<lparr>name = ''npm'', agent = ''npm'', version = Some ''10.1.0''\<rparr>"
    by code_simp
  have 2: "ReadFileSync [''a'', ''package.json'']
     \<in> set (snd (detect constants_ts (process_in [''a'', ''b'', ''c''] None) fs_manifest_above
          (no_options\<lparr>stopDir := Some (StopDirPath [''a'', ''b''])\<rparr>)))"
    by code_simp
  have 3: "fst (detect constants_ts (process_in [''a'', ''b'', ''c''] None) fs_manifest_above
     (no_options\<lparr>stopDir := Some (StopDirPath [''a''])\<rparr>)) =
     Some \<lparr>name = ''npm'', agent = ''npm'', version = Some ''10.1.0''\<rparr>"
    by code_simp
  have 4: "ReadFileSync [''a'', ''package.json'']
     \<in> set (snd (detect constants_ts (process_in [''a'', ''b'', ''c''] None) fs_manifest_above
          (no_options\<lparr>stopDir := Some (StopDirPath [''a''])\<rparr>)))"
    by code_simp
  have 5: "lookup [''a'', ''b'', ''c''] = [[''a'', ''b'', ''c''], [''a'', ''b''], [''a'']]"
    by (simp add: lookup.simps root_def dirname_def)
  show ?thesis
    using 1 2 3 4 5 by simp
qed

text \<open>
  C5, amended. When \<^verbatim>\<open>npm_config_user_agent\<close> is exactly \<^verbatim>\<open>true\<close>: with a non-empty
  environment value \<^verbatim>\<open>detect\<close> returns what the parser returns for it (with the caller's
  \<^verbatim>\<open>onUnknown\<close>), null included, and with no environment value it returns null; in both
  cases no directory is visited. When the option is another truthy value: a non-empty
  environment value that the parser (with no \<^verbatim>\<open>onUnknown\<close>) resolves is returned at once,
  and otherwise, the environment value missing, empty or not resolved, \<^verbatim>\<open>detect\<close> goes
  on to the directories.
\<close>

theorem detect_user_agent_option:
  "(npm_config_user_agent options = JS_boolean True \<and>
      env_npm_config_user_agent proc = Some ua \<and> ua \<noteq> []
      \<longrightarrow> detect c proc fs options = (processUserAgent c ua (onUnknown options), [])) \<and>
   (npm_config_user_agent options = JS_boolean True \<and>
      \<not> env_truthy (env_npm_config_user_agent proc)
      \<longrightarrow> detect c proc fs options = (None, [])) \<and>
   (truthy (npm_config_user_agent options) \<and> npm_config_user_agent options \<noteq> JS_boolean True \<and>
      env_npm_config_user_agent proc = Some ua \<and> ua \<noteq> [] \<and>
      processUserAgent c ua None = Some r
      \<longrightarrow> detect c proc fs options = (Some r, [])) \<and>
   (truthy (npm_config_user_agent options) \<and> npm_config_user_agent options \<noteq> JS_boolean True \<and>
      (\<not> env_truthy (env_npm_config_user_agent proc) \<or>
       env_npm_config_user_agent proc = Some ua \<and> processUserAgent c ua None = None)
      \<longrightarrow> detect c proc fs options =
            detect_directories c fs (onUnknown options) (lookup_cwd proc (cwd options)))"
  by (auto simp: detect_def user_agent_block_def env_truthy_def split: option.splits)

theorem detect_user_agent_option_witness:
  "detect constants_ts (process_in [''a''] (Some ''foo@1.0.0'')) fs_yarn_lock
     (no_options\<lparr>npm_config_user_agent := JS_boolean True\<rparr>) = (None, []) \<and>
   detect constants_ts (process_in [''a''] (Some ''pnpm@6.14.0'')) fs_yarn_lock
     (no_options\<lparr>npm_config_user_agent := JS_boolean True\<rparr>) =
     (Some \<lparr>name = ''pnpm'', agent = ''pnpm@6'', version = Some ''6.14.0''\<rparr>, []) \<and>
   detect constants_ts (process_in [''a''] None) fs_yarn_lock
     (no_options\<lparr>npm_config_user_agent := JS_boolean True\<rparr>) = (None, []) \<and>
   detect constants_ts (process_in [''a''] (Some ''pnpm@6.14.0'')) fs_yarn_lock
     (no_options\<lparr>npm_config_user_agent := JS_string ''fallback''\<rparr>) =
     (Some \<lparr>name = ''pnpm'', agent = ''pnpm@6'', version = Some ''6.14.0''\<rparr>, []) \<and>
   fst (detect constants_ts (process_in [''a''] (Some ''foo@1.0.0'')) fs_yarn_lock
     (no_options\<lparr>npm_config_user_agent := JS_string ''fallback''\<rparr>)) =
     Some \<lparr>name = ''yarn'', agent = ''yarn'', version = None\<rparr> \<and>
   fst (detect constants_ts (process_in [''a''] None) fs_yarn_lock
     (no_options\<lparr>npm_config_user_agent := JS_string ''fallback''\<rparr>)) =
     Some \<lparr>name = ''yarn'', agent = ''yarn'', version = None\<rparr>"
proof -
  let ?true = "no_options\<lparr>npm_config_user_agent := JS_boolean True\<rparr>"
  let ?other = "no_options\<lparr>npm_config_user_agent := JS_string ''fallback''\<rparr>"
  have t: "npm_config_user_agent ?true = JS_boolean True" by simp
  have o: "truthy (npm_config_user_agent ?other) \<and> npm_config_user_agent ?other \<noteq> JS_boolean True"
    by simp
  have foo: "processUserAgent constants_ts ''foo@1.0.0'' None = None" by code_simp
  have foo': "processUserAgent constants_ts ''foo@1.0.0'' (onUnknown ?true) = None" by code_simp
  have pnpm: "processUserAgent constants_ts ''pnpm@6.14.0'' None =
      Some \<lparr>name = ''pnpm'', agent = ''pnpm@6'', version = Some ''6.14.0''\<rparr>" by code_simp
  have pnpm': "processUserAgent constants_ts ''pnpm@6.14.0'' (onUnknown ?true) =
      Some \<lparr>name = ''pnpm'', agent = ''pnpm@6'', version = Some ''6.14.0''\<rparr>" by code_simp
  have walk: "fst (detect_directories constants_ts fs_yarn_lock (onUnknown ?other)
      (lookup_cwd (process_in [''a''] e) (cwd ?other))) =
      Some \<lparr>name = ''yarn'', agent = ''yarn'', version = None\<rparr>" for e
    by (simp add: lookup_cwd_def no_options_def process_in_def lookup.simps root_def dirname_def
        detect_directory_def constants_ts_def fileExists_def path_join_def fs_yarn_lock_def
        parsePackageJson_def)
  have w1: "detect constants_ts (process_in [''a''] (Some ''foo@1.0.0'')) fs_yarn_lock ?true =
      (None, [])"
    using detect_user_agent_option [of ?true "process_in [''a''] (Some ''foo@1.0.0'')"
        "''foo@1.0.0''" constants_ts fs_yarn_lock] t foo'
    by (simp add: process_in_def)
  have w2: "detect constants_ts (process_in [''a''] (Some ''pnpm@6.14.0'')) fs_yarn_lock ?true =
      (Some \<lparr>name = ''pnpm'', agent = ''pnpm@6'', version = Some ''6.14.0''\<rparr>, [])"
    using detect_user_agent_option [of ?true "process_in [''a''] (Some ''pnpm@6.14.0'')"
        "''pnpm@6.14.0''" constants_ts fs_yarn_lock] t pnpm'
    by (simp add: process_in_def)
  have w3: "detect constants_ts (process_in [''a''] None) fs_yarn_lock ?true = (None, [])"
    using detect_user_agent_option [of ?true "process_in [''a''] None" "[]" constants_ts
        fs_yarn_lock] t
    by (simp add: process_in_def env_truthy_def)
  have w4: "detect constants_ts (process_in [''a''] (Some ''pnpm@6.14.0'')) fs_yarn_lock ?other =
      (Some \<lparr>name = ''pnpm'', agent = ''pnpm@6'', version = Some ''6.14.0''\<rparr>, [])"
    using detect_user_agent_option [of ?other "process_in [''a''] (Some ''pnpm@6.14.0'')"
        "''pnpm@6.14.0''" constants_ts fs_yarn_lock] o pnpm
    by (simp add: process_in_def)
  have w5: "fst (detect constants_ts (process_in [''a''] (Some ''foo@1.0.0'')) fs_yarn_lock ?other) =
      Some \<lparr>name = ''yarn'', agent = ''yarn'', version = None\<rparr>"
    using detect_user_agent_option [of ?other "process_in [''a''] (Some ''foo@1.0.0'')"
        "''foo@1.0.0''" constants_ts fs_yarn_lock] o foo walk [of "Some ''foo@1.0.0''"]
    by (simp add: process_in_def)
  have w6: "fst (detect constants_ts (process_in [''a''] None) fs_yarn_lock ?other) =
      Some \<lparr>name = ''yarn'', agent = ''yarn'', version = None\<rparr>"
    using detect_user_agent_option [of ?other "process_in [''a''] None"
        "[]" constants_ts fs_yarn_lock] o walk [of None]
    by (simp add: process_in_def env_truthy_def)
  show ?thesis
    using w1 w2 w3 w4 w5 w6 by simp
qed

text \<open>
  As first stated the property fails both ways. With the option \<^verbatim>\<open>true\<close> and the
  environment value \<^verbatim>\<open>foo@1.0.0\<close>, which parses to null, \<^verbatim>\<open>detect\<close> returns null and does
  not fall through to the directories, where \<^verbatim>\<open>yarn.lock\<close> would give yarn. With the
  option a non-empty string and no environment value, \<^verbatim>\<open>detect\<close> does not return null:
  it visits \<^verbatim>\<open>/a\<close> and returns yarn.
\<close>

theorem detect_user_agent_option_counterexample:
  "processUserAgent constants_ts ''foo@1.0.0'' None = None \<and>
   fst (detect_directories constants_ts fs_yarn_lock None (lookup [''a''])) =
     Some \<lparr>name = ''yarn'', agent = ''yarn'', version = None\<rparr> \<and>
   detect constants_ts (process_in [''a''] (Some ''foo@1.0.0'')) fs_yarn_lock
     (no_options\<lparr>npm_config_user_agent := JS_boolean True\<rparr>) = (None, []) \<and>
   env_npm_config_user_agent (process_in [''a''] None) = None \<and>
   detect constants_ts (process_in [''a''] None) fs_yarn_lock
     (no_options\<lparr>npm_config_user_agent := JS_string ''fallback''\<rparr>) =
     (Some \<lparr>name = ''yarn'', agent = ''yarn'', version = None\<rparr>,
      [StatAsync [''a'', ''bun.lock''], StatAsync [''a'', ''bun.lockb''],
       StatAsync [''a'', ''deno.lock''], StatAsync [''a'', ''pnpm-lock.yaml''],
       StatAsync [''a'', ''yarn.lock''], StatAsync [''a'', ''package.json'']])"
proof -
  have 1: "processUserAgent constants_ts ''foo@1.0.0'' None = None" by code_simp
  have 2: "fst (detect_directories constants_ts fs_yarn_lock None (lookup [''a''])) =
     Some \<lparr>name = ''yarn'', agent = ''yarn'', version = None\<rparr>" by code_simp
  have 3: "detect constants_ts (process_in [''a''] (Some ''foo@1.0.0'')) fs_yarn_lock
     (no_options\<lparr>npm_config_user_agent := JS_boolean True\<rparr>) = (None, [])" by code_simp
  have 4: "env_npm_config_user_agent (process_in [''a''] None) = None"
    by (simp add: process_in_def)
  have 5: "detect constants_ts (process_in [''a''] None) fs_yarn_lock
     (no_options\<lparr>npm_config_user_agent := JS_string ''fallback''\<rparr>) =
     (Some \<lparr>name = ''yarn'', agent = ''yarn'', version = None\<rparr>,
      [StatAsync [''a'', ''bun.lock''], StatAsync [''a'', ''bun.lockb''],
       StatAsync [''a'', ''deno.lock''], StatAsync [''a'', ''pnpm-lock.yaml''],
       StatAsync [''a'', ''yarn.lock''], StatAsync [''a'', ''package.json'']])" by code_simp
  show ?thesis using 1 2 3 4 5 by simp
qed

text \<open>
  C6. A specifier whose first piece, after one leading caret is removed, is \<^verbatim>\<open>yarn\<close> and
  whose second piece parses to an integer greater than 1 yields name \<^verbatim>\<open>yarn\<close>, agent
  \<^verbatim>\<open>yarn@berry\<close> and the literal version \<^verbatim>\<open>berry\<close>, whatever the callback.
\<close>

theorem processUserAgent_yarn_berry:
  assumes "split CHR ''@'' (strip_caret pm) = ''yarn'' # ver # others"
    and "parseInt (Some ver) = Some n"
    and "1 < n"
  shows "processUserAgent c pm onUnk =
           Some \<lparr>name = ''yarn'', agent = ''yarn@berry'', version = Some ''berry''\<rparr>"
proof -
  have "pm \<noteq> []"
  proof
    assume "pm = []"
    then have "split CHR ''@'' (strip_caret pm) = [[]]" by (simp add: split.simps)
    with assms(1) show False by simp
  qed
  then show ?thesis
    using assms by (simp add: processUserAgent_def second_piece_def num_gt_def)
qed

theorem processUserAgent_yarn_berry_witness:
  "split CHR ''@'' (strip_caret ''yarn@3.2.0'') = [''yarn'', ''3.2.0''] \<and>
   parseInt (Some ''3.2.0'') = Some 3 \<and> (1::int) < 3 \<and>
   processUserAgent constants_ts ''yarn@3.2.0'' None =
     Some \<lparr>name = ''yarn'', agent = ''yarn@berry'', version = Some ''berry''\<rparr> \<and>
   split CHR ''@'' (strip_caret ''^yarn@2'') = [''yarn'', ''2''] \<and>
   parseInt (Some ''2'') = Some 2 \<and> (1::int) < 2 \<and>
   processUserAgent constants_ts ''^yarn@2'' None =
     Some \<lparr>name = ''yarn'', agent = ''yarn@berry'', version = Some ''berry''\<rparr>"
proof -
  have s1: "split CHR ''@'' (strip_caret ''yarn@3.2.0'') = ''yarn'' # ''3.2.0'' # []"
    by (simp add: split.simps)
  have p1: "parseInt (Some ''3.2.0'') = Some 3"
    by (simp add: parseInt_def StrWhiteSpaceChar_def radix_digit_def digit_value_def mathInt_def)
  have s2: "split CHR ''@'' (strip_caret ''^yarn@2'') = ''yarn'' # ''2'' # []"
    by (simp add: split.simps)
  have p2: "parseInt (Some ''2'') = Some 2"
    by (simp add: parseInt_def StrWhiteSpaceChar_def radix_digit_def digit_value_def mathInt_def)
  show ?thesis
    using s1 p1 s2 p2 processUserAgent_yarn_berry [OF s1 p1, of constants_ts None]
      processUserAgent_yarn_berry [OF s2 p2, of constants_ts None]
    by simp
qed

text \<open>
  C7, amended. A specifier whose name part is \<^verbatim>\<open>pnpm\<close>, name and version being the text
  before and after the first \<^verbatim>\<open>@\<close> once a leading caret is removed: when the version's
  leading integer is less than 7, the result is name \<^verbatim>\<open>pnpm\<close>, agent \<^verbatim>\<open>pnpm@6\<close>, and as
  version the specifier's version up to its next \<^verbatim>\<open>@\<close>, which is the whole version,
  verbatim, when it holds no \<^verbatim>\<open>@\<close>. When the version is missing, empty or without a
  leading integer, \<^verbatim>\<open>parseInt\<close> gives \<^verbatim>\<open>NaN\<close>, the comparison is false, and with
  \<^verbatim>\<open>pnpm\<close> among the known agents the result is agent \<^verbatim>\<open>pnpm\<close> with the version cut the
  same way. So it is for \<^verbatim>\<open>pnpm@\<close>, whose version is the empty string.
\<close>

theorem processUserAgent_pnpm:
  "(fst (spec_name_version pm) = ''pnpm'' \<and> snd (spec_name_version pm) = Some v \<and>
      parseInt (Some v) = Some n \<and> n < 7
      \<longrightarrow> processUserAgent c pm onUnk =
            Some \<lparr>name = ''pnpm'', agent = ''pnpm@6'',
                  version = Some (takeWhile (\<lambda>x. x \<noteq> CHR ''@'') v)\<rparr>) \<and>
   (fst (spec_name_version pm) = ''pnpm'' \<and> snd (spec_name_version pm) = Some v \<and>
      CHR ''@'' \<notin> set v \<and> parseInt (Some v) = Some n \<and> n < 7
      \<longrightarrow> processUserAgent c pm onUnk =
            Some \<lparr>name = ''pnpm'', agent = ''pnpm@6'', version = Some v\<rparr>) \<and>
   (fst (spec_name_version pm) = ''pnpm'' \<and> parseInt (snd (spec_name_version pm)) = None \<and>
      ''pnpm'' \<in> set (AGENTS c)
      \<longrightarrow> processUserAgent c pm onUnk =
            Some \<lparr>name = ''pnpm'', agent = ''pnpm'',
                  version = map_option (takeWhile (\<lambda>x. x \<noteq> CHR ''@''))
                              (snd (spec_name_version pm))\<rparr>) \<and>
   parseInt None = None \<and> parseInt (Some []) = None \<and>
   (''pnpm'' \<in> set (AGENTS c)
      \<longrightarrow> processUserAgent c ''pnpm@'' onUnk =
            Some \<lparr>name = ''pnpm'', agent = ''pnpm'', version = Some []\<rparr>)"
proof -
  let ?cut = "takeWhile (\<lambda>x. x \<noteq> CHR ''@'')"
  have pieces: "pm \<noteq> [] \<and> (\<exists>rest. split CHR ''@'' (strip_caret pm) = ''pnpm'' # rest \<and>
      second_piece rest = map_option ?cut (snd (spec_name_version pm)))"
    if "fst (spec_name_version pm) = ''pnpm''"
  proof -
    have ne: "pm \<noteq> []"
    proof
      assume "pm = []"
      then have "fst (spec_name_version pm) = []"
        by (simp add: spec_name_version_def)
      with that show False by simp
    qed
    obtain nm rest where s: "split CHR ''@'' (strip_caret pm) = nm # rest"
      using split_not_empty [of "CHR ''@''" "strip_caret pm"]
      by (cases "split CHR ''@'' (strip_caret pm)") auto
    from split_spec_name_version [OF s] that s ne show ?thesis
      by simp
  qed
  have same: "parseInt (map_option ?cut x) = parseInt x" for x
    by (cases x) (simp_all add: parseInt_up_to_separator)
  have legacy: "processUserAgent c pm onUnk =
      Some \<lparr>name = ''pnpm'', agent = ''pnpm@6'', version = Some (?cut v)\<rparr>"
    if "fst (spec_name_version pm) = ''pnpm''" and "snd (spec_name_version pm) = Some v"
      and "parseInt (Some v) = Some n" and "n < 7"
  proof -
    from pieces [OF that(1)] that(2) obtain rest where ne: "pm \<noteq> []"
      and s: "split CHR ''@'' (strip_caret pm) = ''pnpm'' # rest"
      and v: "second_piece rest = Some (?cut v)"
      by auto
    have "parseInt (Some (?cut v)) = Some n"
      using that(3) by (simp add: parseInt_up_to_separator)
    with ne s v that(4) show ?thesis
      by (simp add: processUserAgent_def num_lt_def)
  qed
  have verbatim: "processUserAgent c pm onUnk =
      Some \<lparr>name = ''pnpm'', agent = ''pnpm@6'', version = Some v\<rparr>"
    if "fst (spec_name_version pm) = ''pnpm''" and "snd (spec_name_version pm) = Some v"
      and "CHR ''@'' \<notin> set v" and "parseInt (Some v) = Some n" and "n < 7"
  proof -
    from that(3) have "?cut v = v" by auto
    with legacy [OF that(1,2,4,5)] show ?thesis by simp
  qed
  have closed: "processUserAgent c pm onUnk =
      Some \<lparr>name = ''pnpm'', agent = ''pnpm'',
            version = map_option ?cut (snd (spec_name_version pm))\<rparr>"
    if "fst (spec_name_version pm) = ''pnpm''"
      and "parseInt (snd (spec_name_version pm)) = None" and "''pnpm'' \<in> set (AGENTS c)"
  proof -
    from pieces [OF that(1)] obtain rest where ne: "pm \<noteq> []"
      and s: "split CHR ''@'' (strip_caret pm) = ''pnpm'' # rest"
      and v: "second_piece rest = map_option ?cut (snd (spec_name_version pm))"
      by auto
    have "parseInt (second_piece rest) = None"
      using that(2) by (simp add: v same)
    with ne s v that(3) show ?thesis
      by (simp add: processUserAgent_def num_lt_def)
  qed
  have empty: "processUserAgent c ''pnpm@'' onUnk =
      Some \<lparr>name = ''pnpm'', agent = ''pnpm'', version = Some []\<rparr>"
    if "''pnpm'' \<in> set (AGENTS c)"
    using that
    by (simp add: processUserAgent_def split.simps second_piece_def num_lt_def parseInt_empty)
  show ?thesis
    using legacy verbatim closed empty parseInt_undefined parseInt_empty by blast
qed

theorem processUserAgent_pnpm_witness:
  "''pnpm'' \<in> set (AGENTS constants_ts) \<and>
   spec_name_version ''pnpm@6.14.0'' = (''pnpm'', Some ''6.14.0'') \<and>
   parseInt (Some ''6.14.0'') = Some 6 \<and> (6::int) < 7 \<and>
   processUserAgent constants_ts ''pnpm@6.14.0'' None =
     Some \<lparr>name = ''pnpm'', agent = ''pnpm@6'', version = Some ''6.14.0''\<rparr> \<and>
   spec_name_version ''pnpm@6.14.0@next'' = (''pnpm'', Some ''6.14.0@next'') \<and>
   parseInt (Some ''6.14.0@next'') = Some 6 \<and>
   processUserAgent constants_ts ''pnpm@6.14.0@next'' None =
     Some \<lparr>name = ''pnpm'', agent = ''pnpm@6'', version = Some ''6.14.0''\<rparr> \<and>
   spec_name_version (''pnpm@'' @ [CHR 0xA0, CHR ''6'']) = (''pnpm'', Some [CHR 0xA0, CHR ''6'']) \<and>
   parseInt (Some [CHR 0xA0, CHR ''6'']) = Some 6 \<and>
   processUserAgent constants_ts (''pnpm@'' @ [CHR 0xA0, CHR ''6'']) None =
     Some \<lparr>name = ''pnpm'', agent = ''pnpm@6'', version = Some [CHR 0xA0, CHR ''6'']\<rparr> \<and>
   spec_name_version ''pnpm@latest'' = (''pnpm'', Some ''latest'') \<and>
   parseInt (Some ''latest'') = None \<and>
   processUserAgent constants_ts ''pnpm@latest'' None =
     Some \<lparr>name = ''pnpm'', agent = ''pnpm'', version = Some ''latest''\<rparr> \<and>
   spec_name_version ''pnpm'' = (''pnpm'', None) \<and>
   processUserAgent constants_ts ''pnpm'' None =
     Some \<lparr>name = ''pnpm'', agent = ''pnpm'', version = None\<rparr> \<and>
   processUserAgent constants_ts ''pnpm@'' None =
     Some \<lparr>name = ''pnpm'', agent = ''pnpm'', version = Some []\<rparr>"
proof -
  have known: "''pnpm'' \<in> set (AGENTS constants_ts)"
    by (simp add: constants_ts_def)
  have s1: "spec_name_version ''pnpm@6.14.0'' = (''pnpm'', Some ''6.14.0'')"
    by (simp add: spec_name_version_def)
  have p1: "parseInt (Some ''6.14.0'') = Some 6"
    by (simp add: parseInt_def StrWhiteSpaceChar_def radix_digit_def digit_value_def mathInt_def)
  have s2: "spec_name_version ''pnpm@6.14.0@next'' = (''pnpm'', Some ''6.14.0@next'')"
    by (simp add: spec_name_version_def)
  have p2: "parseInt (Some ''6.14.0@next'') = Some 6"
    by (simp add: parseInt_def StrWhiteSpaceChar_def radix_digit_def digit_value_def mathInt_def)
  have s3: "spec_name_version (''pnpm@'' @ [CHR 0xA0, CHR ''6'']) =
      (''pnpm'', Some [CHR 0xA0, CHR ''6''])"
    by (simp add: spec_name_version_def)
  have p3: "parseInt (Some [CHR 0xA0, CHR ''6'']) = Some 6"
    by (simp add: parseInt_def StrWhiteSpaceChar_def radix_digit_def digit_value_def mathInt_def)
  have s4: "spec_name_version ''pnpm@latest'' = (''pnpm'', Some ''latest'')"
    by (simp add: spec_name_version_def)
  have p4: "parseInt (Some ''latest'') = None"
    by (simp add: parseInt_def StrWhiteSpaceChar_def radix_digit_def digit_value_def)
  have s5: "spec_name_version ''pnpm'' = (''pnpm'', None)"
    by (simp add: spec_name_version_def)
  have w1: "processUserAgent constants_ts ''pnpm@6.14.0'' None =
     Some \<lparr>name = ''pnpm'', agent = ''pnpm@6'', version = Some ''6.14.0''\<rparr>"
    using processUserAgent_pnpm [where pm = "''pnpm@6.14.0''" and v = "''6.14.0''"
        and n = 6 and c = constants_ts and onUnk = None] s1 p1
    by simp
  have w2: "processUserAgent constants_ts ''pnpm@6.14.0@next'' None =
     Some \<lparr>name = ''pnpm'', agent = ''pnpm@6'', version = Some ''6.14.0''\<rparr>"
    using processUserAgent_pnpm [where pm = "''pnpm@6.14.0@next''" and v = "''6.14.0@next''"
        and n = 6 and c = constants_ts and onUnk = None] s2 p2
    by simp
  have w3: "processUserAgent constants_ts (''pnpm@'' @ [CHR 0xA0, CHR ''6'']) None =
     Some \<lparr>name = ''pnpm'', agent = ''pnpm@6'', version = Some [CHR 0xA0, CHR ''6'']\<rparr>"
    using processUserAgent_pnpm [where pm = "''pnpm@'' @ [CHR 0xA0, CHR ''6'']"
        and v = "[CHR 0xA0, CHR ''6'']" and n = 6 and c = constants_ts and onUnk = None] s3 p3
    by simp
  have w4: "processUserAgent constants_ts ''pnpm@latest'' None =
     Some \<lparr>name = ''pnpm'', agent = ''pnpm'', version = Some ''latest''\<rparr>"
    using processUserAgent_pnpm [where pm = "''pnpm@latest''" and c = constants_ts
        and onUnk = None] s4 p4 known
    by simp
  have w5: "processUserAgent constants_ts ''pnpm'' None =
     Some \<lparr>name = ''pnpm'', agent = ''pnpm'', version = None\<rparr>"
    using processUserAgent_pnpm [where pm = "''pnpm''" and c = constants_ts
        and onUnk = None] s5 parseInt_undefined known
    by simp
  have w6: "processUserAgent constants_ts ''pnpm@'' None =
     Some \<lparr>name = ''pnpm'', agent = ''pnpm'', version = Some []\<rparr>"
    using processUserAgent_pnpm [where c = constants_ts and onUnk = None] known
    by blast
  show ?thesis
    using known s1 p1 s2 p2 s3 p3 s4 p4 s5 w1 w2 w3 w4 w5 w6 by simp
qed

text \<open>
  As first stated, with the version preserved verbatim, the property fails at a specifier
  with a second \<^verbatim>\<open>@\<close>: the version of \<^verbatim>\<open>pnpm@6.14.0@next\<close> is \<^verbatim>\<open>6.14.0@next\<close>, with
  leading integer 6, and the result carries \<^verbatim>\<open>6.14.0\<close>.
\<close>

theorem processUserAgent_pnpm_second_separator_counterexample:
  "spec_name_version ''pnpm@6.14.0@next'' = (''pnpm'', Some ''6.14.0@next'') \<and>
   parseInt (Some ''6.14.0@next'') = Some 6 \<and> (6::int) < 7 \<and>
   processUserAgent constants_ts ''pnpm@6.14.0@next'' None =
     Some \<lparr>name = ''pnpm'', agent = ''pnpm@6'', version = Some ''6.14.0''\<rparr> \<and>
   processUserAgent constants_ts ''pnpm@6.14.0@next'' None \<noteq>
     Some \<lparr>name = ''pnpm'', agent = ''pnpm@6'', version = Some ''6.14.0@next''\<rparr>"
proof -
  have 1: "spec_name_version ''pnpm@6.14.0@next'' = (''pnpm'', Some ''6.14.0@next'')"
    by (simp add: spec_name_version_def)
  have 2: "parseInt (Some ''6.14.0@next'') = Some 6"
    by (simp add: parseInt_def StrWhiteSpaceChar_def radix_digit_def digit_value_def mathInt_def)
  have 3: "processUserAgent constants_ts ''pnpm@6.14.0@next'' None =
     Some \<lparr>name = ''pnpm'', agent = ''pnpm@6'', version = Some ''6.14.0''\<rparr>"
    by code_simp
  show ?thesis
    using 1 2 3 by simp
qed

text \<open>
  C8, amended. For every non-empty specifier whose first piece is not a known agent (the
  known agents holding \<^verbatim>\<open>yarn\<close> and \<^verbatim>\<open>pnpm\<close>), the parser is defined and returns exactly
  what \<^verbatim>\<open>onUnknown\<close> returns for the unchanged specifier, null when that is null or when
  there is no callback.
\<close>

theorem processUserAgent_unknown_name:
  assumes "pm \<noteq> []"
    and "split CHR ''@'' (strip_caret pm) = nm # rest"
    and "nm \<notin> set (AGENTS c)"
    and "''yarn'' \<in> set (AGENTS c)"
    and "''pnpm'' \<in> set (AGENTS c)"
  shows "processUserAgent c pm onUnk = (case onUnk of None \<Rightarrow> None | Some f \<Rightarrow> f pm)"
proof -
  from assms(3,4,5) have "nm \<noteq> ''yarn''" and "nm \<noteq> ''pnpm''"
    by auto
  with assms(1,2,3) show ?thesis
    by (simp add: processUserAgent_def call_onUnknown_def)
qed

theorem processUserAgent_unknown_name_witness:
  "''foo@1.0.0'' \<noteq> [] \<and>
   split CHR ''@'' (strip_caret ''foo@1.0.0'') = [''foo'', ''1.0.0''] \<and>
   ''foo'' \<notin> set (AGENTS constants_ts) \<and>
   ''yarn'' \<in> set (AGENTS constants_ts) \<and>
   ''pnpm'' \<in> set (AGENTS constants_ts) \<and>
   processUserAgent constants_ts ''foo@1.0.0'' None = None \<and>
   processUserAgent constants_ts ''foo@1.0.0'' (Some always_npm) = always_npm ''foo@1.0.0'' \<and>
   processUserAgent constants_ts ''foo@1.0.0'' (Some (\<lambda>pm. None)) = None"
proof -
  have 1: "''foo@1.0.0'' \<noteq> []" by simp
  have 2: "split CHR ''@'' (strip_caret ''foo@1.0.0'') = ''foo'' # [''1.0.0'']"
    by (simp add: split.simps)
  have 3: "''foo'' \<notin> set (AGENTS constants_ts)"
    by (simp add: constants_ts_def)
  have 4: "''yarn'' \<in> set (AGENTS constants_ts)"
    by (simp add: constants_ts_def)
  have 5: "''pnpm'' \<in> set (AGENTS constants_ts)"
    by (simp add: constants_ts_def)
  show ?thesis
    using 1 2 3 4 5 processUserAgent_unknown_name [OF 1 2 3 4 5, of None]
      processUserAgent_unknown_name [OF 1 2 3 4 5, of "Some always_npm"]
      processUserAgent_unknown_name [OF 1 2 3 4 5, of "Some (\<lambda>pm. None)"]
    by simp
qed

text \<open>
  As first stated, for every specifier, the property fails at the empty one, which a
  manifest can hold: its first piece is the empty string, no known agent, and the parser
  returns null at \<^verbatim>\<open>!pm\<close> without calling the callback, which would have answered npm.
\<close>

theorem processUserAgent_empty_specifier_counterexample:
  "split CHR ''@'' (strip_caret []) = [[]] \<and>
   [] \<notin> set (AGENTS constants_ts) \<and>
   always_npm [] = Some \<lparr>name = ''npm'', agent = ''npm'', version = None\<rparr> \<and>
   processUserAgent constants_ts [] (Some always_npm) = None"
  by (simp add: split.simps constants_ts_def always_npm_def processUserAgent_def)

text \<open>
  C9. On the same tables, process, file system and options, \<^verbatim>\<open>detect\<close> and \<^verbatim>\<open>detectSync\<close>
  return the same result (the same \<^verbatim>\<open>DetectResult\<close> or the same \<^verbatim>\<open>null\<close>), and they
  access the same paths in the same order: only the kind of the \<^verbatim>\<open>stat\<close> call differs.
\<close>

theorem detect_detectSync_same_result:
  "fst (detectSync c proc fs options) = fst (detect c proc fs options) \<and>
   map access_path (snd (detectSync c proc fs options)) =
   map access_path (snd (detect c proc fs options))"
  by (simp add: detectSync_def detect_def detectSync_directories_fst
      detectSync_directories_paths split: option.splits)

end
